theory Spec2Isabelle
  imports Complex_Main
begin

section \<open>Configuration constants (config/constants.js)\<close>

text \<open>
  Health, armor, damage and ammunition are whole numbers throughout the configuration, and
  timestamps are whole milliseconds, so they are modelled as \<open>int\<close>. Positions, distances
  and frame times are modelled as \<open>real\<close>.
\<close>

definition ZOMBIE_SPEED :: real where "ZOMBIE_SPEED = 2"
definition ZOMBIE_HEALTH :: int where "ZOMBIE_HEALTH = 100"
definition ZOMBIE_DAMAGE :: int where "ZOMBIE_DAMAGE = 10"
definition ZOMBIE_SPAWN_INTERVAL :: real where "ZOMBIE_SPAWN_INTERVAL = 3000"
definition ZOMBIE_SPAWN_DISTANCE_MIN :: real where "ZOMBIE_SPAWN_DISTANCE_MIN = 60"
definition ZOMBIE_SPAWN_DISTANCE_MAX :: real where "ZOMBIE_SPAWN_DISTANCE_MAX = 80"
definition ZOMBIE_ATTACK_COOLDOWN :: int where "ZOMBIE_ATTACK_COOLDOWN = 1000"
definition ZOMBIE_BODY_DESPAWN_TIME :: int where "ZOMBIE_BODY_DESPAWN_TIME = 5000"
definition MAP_BOUNDARY :: real where "MAP_BOUNDARY = 95"

section \<open>Events\<close>

text \<open>
  The event channel delivers each published event to its subscribers; the subscribers are
  user-interface and audio code. A call of \<open>eventBus.emit\<close> is modelled as one entry of the
  list of emissions that the operation returns, in the order of the calls. Each entry records
  the component whose code makes the call.
\<close>

datatype val = Num int | Undefined

datatype event =
    PLAYER_DAMAGED int int
  | PLAYER_DIED
  | WEAPON_FIRED string int
  | WEAPON_EMPTY string
  | ARMOR_BROKEN
  | STATE_CHANGED string val val

datatype emitter = GameStateStore | WeaponObject

type_synonym emission = "emitter \<times> event"

definition published :: "event \<Rightarrow> emission list \<Rightarrow> nat" where
  "published e es = length (filter (\<lambda>x. snd x = e) es)"

section \<open>GameState (state/GameState.js)\<close>

record PlayerState =
  health :: int
  maxHealth :: int
  armor :: int
  maxArmor :: int
  coins :: int
  kills :: int

record WeaponsState =
  current :: string
  owned :: "string list"
  ammo :: "string \<rightharpoonup> int"
  maxAmmo :: "string \<rightharpoonup> int"

record GameState =
  isPlaying :: bool
  isPaused :: bool
  shopOpen :: bool
  isFirstPerson :: bool
  player :: PlayerState
  weapons :: WeaponsState

definition initialState :: GameState where
  "initialState =
     \<lparr> isPlaying = False, isPaused = False, shopOpen = False, isFirstPerson = False,
       player = \<lparr> health = 100, maxHealth = 100, armor = 0, maxArmor = 0, coins = 0, kills = 0 \<rparr>,
       weapons = \<lparr> current = ''pistol'', owned = [''pistol''],
                   ammo = [''pistol'' \<mapsto> 12, ''shotgun'' \<mapsto> 0],
                   maxAmmo = [''pistol'' \<mapsto> 12, ''shotgun'' \<mapsto> 6] \<rparr> \<rparr>"

text \<open>
  \<open>setState(path, value)\<close> writes one field and emits \<open>STATE_CHANGED\<close> with the path, the old
  value and the new one. There is one setter for each path that the modelled methods write.
\<close>

definition setState_player_health :: "int \<Rightarrow> GameState \<Rightarrow> GameState \<times> emission list" where
  "setState_player_health v s =
     (s\<lparr>player := (player s)\<lparr>health := v\<rparr>\<rparr>,
      [(GameStateStore, STATE_CHANGED ''player.health'' (Num (health (player s))) (Num v))])"

definition setState_player_maxHealth :: "int \<Rightarrow> GameState \<Rightarrow> GameState \<times> emission list" where
  "setState_player_maxHealth v s =
     (s\<lparr>player := (player s)\<lparr>maxHealth := v\<rparr>\<rparr>,
      [(GameStateStore, STATE_CHANGED ''player.maxHealth'' (Num (maxHealth (player s))) (Num v))])"

definition setState_player_armor :: "int \<Rightarrow> GameState \<Rightarrow> GameState \<times> emission list" where
  "setState_player_armor v s =
     (s\<lparr>player := (player s)\<lparr>armor := v\<rparr>\<rparr>,
      [(GameStateStore, STATE_CHANGED ''player.armor'' (Num (armor (player s))) (Num v))])"

definition setState_player_maxArmor :: "int \<Rightarrow> GameState \<Rightarrow> GameState \<times> emission list" where
  "setState_player_maxArmor v s =
     (s\<lparr>player := (player s)\<lparr>maxArmor := v\<rparr>\<rparr>,
      [(GameStateStore, STATE_CHANGED ''player.maxArmor'' (Num (maxArmor (player s))) (Num v))])"

definition val_of :: "int option \<Rightarrow> val" where
  "val_of x = (case x of None \<Rightarrow> Undefined | Some n \<Rightarrow> Num n)"

definition setState_weapons_ammo :: "string \<Rightarrow> int \<Rightarrow> GameState \<Rightarrow> GameState \<times> emission list" where
  "setState_weapons_ammo w v s =
     (s\<lparr>weapons := (weapons s)\<lparr>ammo := (ammo (weapons s))(w \<mapsto> v)\<rparr>\<rparr>,
      [(GameStateStore,
        STATE_CHANGED (''weapons.ammo.'' @ w) (val_of (ammo (weapons s) w)) (Num v))])"

text \<open>\<open>get('weapons.ammo.' + type)\<close>: the stored number, or \<open>undefined\<close> (\<open>None\<close>) for a missing key.\<close>

definition get_weapons_ammo :: "string \<Rightarrow> GameState \<Rightarrow> int option" where
  "get_weapons_ammo w s = ammo (weapons s) w"

text \<open>
  \<open>damage(amount)\<close>: armor absorbs first and \<open>ARMOR_BROKEN\<close> is emitted when it is used up;
  what remains goes to health, floored at 0, and \<open>PLAYER_DIED\<close> is emitted when the new
  health is not positive; \<open>PLAYER_DAMAGED\<close> closes the call.
\<close>

definition damage :: "int \<Rightarrow> GameState \<Rightarrow> GameState \<times> emission list" where
  "damage amount s0 =
     (let (s1, remaining, ev1) =
            (if armor (player s0) > 0 then
               (let armorDamage = min (armor (player s0)) amount;
                    (s, e) = setState_player_armor (armor (player s0) - armorDamage) s0
                in (s, amount - armorDamage,
                    e @ (if armor (player s) \<le> 0 then [(GameStateStore, ARMOR_BROKEN)] else [])))
             else (s0, amount, []));
          (s2, ev2) =
            (if remaining > 0 then
               (let newHealth = max 0 (health (player s1) - remaining);
                    (s, e) = setState_player_health newHealth s1
                in (s, e @ (if newHealth \<le> 0 then [(GameStateStore, PLAYER_DIED)] else [])))
             else (s1, []))
      in (s2, ev1 @ ev2 @
              [(GameStateStore, PLAYER_DAMAGED amount (health (player s2)))]))"

definition heal :: "int \<Rightarrow> GameState \<Rightarrow> GameState \<times> emission list" where
  "heal amount s =
     (let newHealth = min (maxHealth (player s)) (health (player s) + amount)
      in setState_player_health newHealth s)"

definition addArmor :: "int \<Rightarrow> int \<Rightarrow> GameState \<Rightarrow> GameState \<times> emission list" where
  "addArmor armorPoints healthBonus s0 =
     (let (s1, e1) = setState_player_maxArmor armorPoints s0;
          (s2, e2) = setState_player_armor armorPoints s1;
          (s3, e3) = setState_player_maxHealth (100 + healthBonus) s2;
          (s4, e4) = setState_player_health (100 + healthBonus) s3
      in (s4, e1 @ e2 @ e3 @ e4))"

text \<open>
  \<open>useAmmo()\<close> works on the current weapon. A missing ammo entry reads as \<open>undefined\<close>, for
  which \<open>currentAmmo > 0\<close> is false.
\<close>

definition useAmmo :: "GameState \<Rightarrow> bool \<times> GameState \<times> emission list" where
  "useAmmo s =
     (let weapon = current (weapons s);
          currentAmmo = ammo (weapons s) weapon
      in case currentAmmo of
           Some n \<Rightarrow>
             if n > 0 then
               (let (s', e) = setState_weapons_ammo weapon (n - 1) s
                in (True, s', e @ [(GameStateStore, WEAPON_FIRED weapon (n - 1))]))
             else (False, s, [(GameStateStore, WEAPON_EMPTY weapon)])
         | None \<Rightarrow> (False, s, [(GameStateStore, WEAPON_EMPTY weapon)]))"

section \<open>Weapon (entities/Weapon.js)\<close>

text \<open>
  The weapon's mesh and recoil animation are rendering state and are left out. \<open>now\<close> is the
  reading of \<open>Date.now()\<close> during the call. A comparison of \<open>undefined\<close> with a number is
  false in either direction.
\<close>

record Weapon =
  wtype :: string
  lastFireTime :: int
  fireRate :: int

definition Weapon_new :: "string \<Rightarrow> Weapon" where
  "Weapon_new t = \<lparr> wtype = t, lastFireTime = 0, fireRate = (if t = ''shotgun'' then 800 else 300) \<rparr>"

definition gt_zero :: "int option \<Rightarrow> bool" where
  "gt_zero v = (case v of None \<Rightarrow> False | Some n \<Rightarrow> 0 < n)"

definition le_zero :: "int option \<Rightarrow> bool" where
  "le_zero v = (case v of None \<Rightarrow> False | Some n \<Rightarrow> n \<le> 0)"

definition canFire :: "Weapon \<Rightarrow> int \<Rightarrow> GameState \<Rightarrow> bool" where
  "canFire w now s =
     (gt_zero (get_weapons_ammo (wtype w) s) \<and> fireRate w \<le> now - lastFireTime w)"

definition fire :: "Weapon \<Rightarrow> int \<Rightarrow> GameState \<Rightarrow> bool \<times> Weapon \<times> GameState \<times> emission list" where
  "fire w now s =
     (if \<not> canFire w now s then
        (False, w, s,
         if le_zero (get_weapons_ammo (wtype w) s)
         then [(WeaponObject, WEAPON_EMPTY (wtype w))] else [])
      else
        (let w' = w\<lparr>lastFireTime := now\<rparr>;
             (used, s', e) = useAmmo s
         in (True, w', s', e)))"

section \<open>Vectors\<close>

text \<open>
  The operations of the vector class that the modelled code calls. \<open>normalize\<close> divides by
  the length, or by 1 when the length is 0.
\<close>

record Vector3 =
  vx :: real
  vy :: real
  vz :: real

definition subVectors :: "Vector3 \<Rightarrow> Vector3 \<Rightarrow> Vector3" where
  "subVectors a b = \<lparr> vx = vx a - vx b, vy = vy a - vy b, vz = vz a - vz b \<rparr>"

definition addVectors :: "Vector3 \<Rightarrow> Vector3 \<Rightarrow> Vector3" where
  "addVectors a b = \<lparr> vx = vx a + vx b, vy = vy a + vy b, vz = vz a + vz b \<rparr>"

definition multiplyScalar :: "Vector3 \<Rightarrow> real \<Rightarrow> Vector3" where
  "multiplyScalar a k = \<lparr> vx = vx a * k, vy = vy a * k, vz = vz a * k \<rparr>"

definition dot :: "Vector3 \<Rightarrow> Vector3 \<Rightarrow> real" where
  "dot a b = vx a * vx b + vy a * vy b + vz a * vz b"

definition vlength :: "Vector3 \<Rightarrow> real" where
  "vlength a = sqrt (dot a a)"

definition normalize :: "Vector3 \<Rightarrow> Vector3" where
  "normalize a = (let l = vlength a; k = (if l = 0 then 1 else l)
                  in \<lparr> vx = vx a / k, vy = vy a / k, vz = vz a / k \<rparr>)"

section \<open>CollisionSystem.raycastSphere (systems/CollisionSystem.js)\<close>

record Hit =
  distance :: real
  point :: Vector3

definition raycastSphere :: "Vector3 \<Rightarrow> Vector3 \<Rightarrow> Vector3 \<Rightarrow> real \<Rightarrow> Hit option" where
  "raycastSphere origin direction sphereCenter radius =
     (let oc = subVectors origin sphereCenter;
          a = dot direction direction;
          b = 2 * dot oc direction;
          c = dot oc oc - radius * radius;
          discriminant = b * b - 4 * a * c
      in if discriminant < 0 then None
         else (let t = (- b - sqrt discriminant) / (2 * a)
               in if t < 0 then None
                  else Some \<lparr> distance = t,
                              point = addVectors origin (multiplyScalar direction t) \<rparr>))"

text \<open>
  The ray equation of the specification: the point at parameter \<open>t\<close> of the ray from \<open>O\<close> along
  \<open>D\<close> lies on the sphere of center \<open>C\<close> and radius \<open>r\<close>.
\<close>

definition ray_on_sphere :: "Vector3 \<Rightarrow> Vector3 \<Rightarrow> Vector3 \<Rightarrow> real \<Rightarrow> real \<Rightarrow> bool" where
  "ray_on_sphere origin direction sphereCenter radius t =
     (let p = subVectors (addVectors origin (multiplyScalar direction t)) sphereCenter
      in dot p p = radius * radius)"

section \<open>Enemy (entities/Enemy.js)\<close>

text \<open>
  An enemy's mesh, materials and walk animation are rendering state and are left out, except
  for whether the head is still attached. \<open>position\<close> is the position of the enemy's group.
  The field \<open>enemy_id n\<close> stands for the identifier string made of \<open>enemy_\<close> and the number \<open>n\<close>.
\<close>

record Enemy =
  enemy_id :: nat
  position :: Vector3
  enemy_health :: int
  isDead :: bool
  deathTime :: int
  lastAttackTime :: int
  head :: bool

definition Enemy_new :: "nat \<Rightarrow> Enemy" where
  "Enemy_new n =
     \<lparr> enemy_id = n, position = \<lparr> vx = 0, vy = 0, vz = 0 \<rparr>, enemy_health = ZOMBIE_HEALTH,
       isDead = False, deathTime = 0, lastAttackTime = 0, head = False \<rparr>"

definition Enemy_init :: "Vector3 \<Rightarrow> Enemy \<Rightarrow> Enemy" where
  "Enemy_init pos e = e\<lparr>head := True, position := pos\<rparr>"

definition Enemy_update :: "real \<Rightarrow> int \<Rightarrow> Vector3 \<Rightarrow> Enemy \<Rightarrow> bool \<times> Enemy" where
  "Enemy_update deltaTime now playerPos e =
     (if isDead e then
        (if now - deathTime e > ZOMBIE_BODY_DESPAWN_TIME then (True, e) else (False, e))
      else
        (let direction = normalize (subVectors playerPos (position e))
         in (False,
             e\<lparr>position := (position e)
                  \<lparr>vx := vx (position e) + vx direction * ZOMBIE_SPEED * deltaTime,
                   vz := vz (position e) + vz direction * ZOMBIE_SPEED * deltaTime\<rparr>\<rparr>)))"

definition die :: "bool \<Rightarrow> int \<Rightarrow> Enemy \<Rightarrow> Enemy" where
  "die isHeadshot now e =
     e\<lparr>isDead := True, deathTime := now,
       position := (position e)\<lparr>vy := 3 / 10\<rparr>,
       head := (if isHeadshot \<and> head e then False else head e)\<rparr>"

definition takeDamage :: "int \<Rightarrow> bool \<Rightarrow> int \<Rightarrow> Enemy \<Rightarrow> bool \<times> Enemy" where
  "takeDamage amount isHeadshot now e =
     (if isDead e then (False, e)
      else (let e1 = e\<lparr>enemy_health := enemy_health e - amount\<rparr>
            in if enemy_health e1 \<le> 0 then (True, die isHeadshot now e1)
               else (False, e1)))"

definition canAttack :: "int \<Rightarrow> Enemy \<Rightarrow> bool" where
  "canAttack now e = (\<not> isDead e \<and> ZOMBIE_ATTACK_COOLDOWN \<le> now - lastAttackTime e)"

definition attack :: "int \<Rightarrow> Enemy \<Rightarrow> int \<times> Enemy" where
  "attack now e =
     (if \<not> canAttack now e then (0, e) else (ZOMBIE_DAMAGE, e\<lparr>lastAttackTime := now\<rparr>))"

section \<open>SpawnerSystem (systems/SpawnerSystem.js)\<close>

text \<open>
  The arrays \<open>enemies\<close> and \<open>deadEnemies\<close> hold references to shared Enemy objects, and the
  code compares entries by object identity (\<open>includes\<close>, \<open>indexOf\<close>). The model keeps the
  objects in a store \<open>objects\<close> and the arrays as lists of references into it. The reference of
  an object is the number that \<open>spawnEnemy\<close> takes from \<open>enemyIdCounter\<close> when it creates
  the object; the counter grows with every creation and is never reset. The scene graph is
  rendering state and is left out.

  Reading past the end of an array gives \<open>undefined\<close>, and the method call or field read that
  follows raises a TypeError; the model returns it as a value.
\<close>

datatype error = TypeError

record SpawnerSystem =
  enemies :: "nat list"
  deadEnemies :: "nat list"
  objects :: "nat \<rightharpoonup> Enemy"
  spawnTimer :: real
  enemyIdCounter :: nat
  isActive :: bool
  playerPosition :: Vector3

definition SpawnerSystem_new :: SpawnerSystem where
  "SpawnerSystem_new =
     \<lparr> enemies = [], deadEnemies = [], objects = Map.empty, spawnTimer = 0,
       enemyIdCounter = 0, isActive = False, playerPosition = \<lparr> vx = 0, vy = 0, vz = 0 \<rparr> \<rparr>"

definition start :: "SpawnerSystem \<Rightarrow> SpawnerSystem" where
  "start s = s\<lparr>isActive := True\<rparr>"

definition stop :: "SpawnerSystem \<Rightarrow> SpawnerSystem" where
  "stop s = s\<lparr>isActive := False\<rparr>"

definition setPlayerPosition :: "Vector3 \<Rightarrow> SpawnerSystem \<Rightarrow> SpawnerSystem" where
  "setPlayerPosition p s = s\<lparr>playerPosition := p\<rparr>"

text \<open>\<open>rnd1\<close> and \<open>rnd2\<close> are the two results of \<open>Math.random()\<close>, in the order of the calls.\<close>

definition getSpawnPosition :: "real \<Rightarrow> real \<Rightarrow> SpawnerSystem \<Rightarrow> Vector3" where
  "getSpawnPosition rnd1 rnd2 s =
     (let angle = rnd1 * pi * 2;
          dist = ZOMBIE_SPAWN_DISTANCE_MIN
                   + rnd2 * (ZOMBIE_SPAWN_DISTANCE_MAX - ZOMBIE_SPAWN_DISTANCE_MIN);
          x = vx (playerPosition s) + cos angle * dist;
          z = vz (playerPosition s) + sin angle * dist;
          clampedX = max (- MAP_BOUNDARY) (min MAP_BOUNDARY x);
          clampedZ = max (- MAP_BOUNDARY) (min MAP_BOUNDARY z)
      in \<lparr> vx = clampedX, vy = 0, vz = clampedZ \<rparr>)"

definition spawnEnemy :: "real \<Rightarrow> real \<Rightarrow> SpawnerSystem \<Rightarrow> SpawnerSystem" where
  "spawnEnemy rnd1 rnd2 s =
     (let pos = getSpawnPosition rnd1 rnd2 s;
          n = enemyIdCounter s;
          enemy = Enemy_init pos (Enemy_new n)
      in s\<lparr>enemyIdCounter := n + 1,
           objects := (objects s)(n \<mapsto> enemy),
           enemies := enemies s @ [n]\<rparr>)"

text \<open>\<open>indexOf\<close> gives the first index of an entry, \<open>None\<close> standing for -1; \<open>splice1 i\<close> is \<open>splice(i, 1)\<close>.\<close>

fun indexOf :: "'a list \<Rightarrow> 'a \<Rightarrow> nat option" where
  "indexOf [] a = None"
| "indexOf (b # bs) a = (if b = a then Some 0 else map_option Suc (indexOf bs a))"

definition splice1 :: "nat \<Rightarrow> 'a list \<Rightarrow> 'a list" where
  "splice1 i xs = take i xs @ drop (Suc i) xs"

definition removeEnemy :: "nat \<Rightarrow> SpawnerSystem \<Rightarrow> error + SpawnerSystem" where
  "removeEnemy index s =
     (if index < length (enemies s) then
        (let enemy = enemies s ! index;
             s1 = s\<lparr>enemies := splice1 index (enemies s)\<rparr>
         in case indexOf (deadEnemies s1) enemy of
              Some deadIndex \<Rightarrow> Inr (s1\<lparr>deadEnemies := splice1 deadIndex (deadEnemies s1)\<rparr>)
            | None \<Rightarrow> Inr s1)
      else Inl TypeError)"

text \<open>
  One pass of the loop of \<open>updateEnemies\<close> at index \<open>i\<close>; \<open>clock i\<close> is the reading of
  \<open>Date.now()\<close> inside the update of the enemy at that index.
\<close>

definition updateEnemies_at :: "real \<Rightarrow> (nat \<Rightarrow> int) \<Rightarrow> nat \<Rightarrow> SpawnerSystem \<Rightarrow> error + SpawnerSystem" where
  "updateEnemies_at deltaTime clock i s =
     (if i < length (enemies s) then
        (let r = enemies s ! i
         in case objects s r of
              None \<Rightarrow> Inl TypeError
            | Some enemy \<Rightarrow>
                (let (shouldRemove, enemy') =
                       Enemy_update deltaTime (clock i) (playerPosition s) enemy;
                     s1 = s\<lparr>objects := (objects s)(r \<mapsto> enemy')\<rparr>
                 in if shouldRemove then removeEnemy i s1
                    else if isDead enemy' \<and> r \<notin> set (deadEnemies s1)
                         then Inr (s1\<lparr>deadEnemies := deadEnemies s1 @ [r]\<rparr>)
                         else Inr s1))
      else Inl TypeError)"

text \<open>The loop runs the index from \<open>n - 1\<close> down to 0.\<close>

fun updateEnemies_from :: "nat \<Rightarrow> real \<Rightarrow> (nat \<Rightarrow> int) \<Rightarrow> SpawnerSystem \<Rightarrow> error + SpawnerSystem" where
  "updateEnemies_from 0 deltaTime clock s = Inr s"
| "updateEnemies_from (Suc i) deltaTime clock s =
     (case updateEnemies_at deltaTime clock i s of
        Inl e \<Rightarrow> Inl e
      | Inr s' \<Rightarrow> updateEnemies_from i deltaTime clock s')"

definition updateEnemies :: "real \<Rightarrow> (nat \<Rightarrow> int) \<Rightarrow> SpawnerSystem \<Rightarrow> error + SpawnerSystem" where
  "updateEnemies deltaTime clock s = updateEnemies_from (length (enemies s)) deltaTime clock s"

definition cleanupDeadEnemies_at :: "int \<Rightarrow> nat \<Rightarrow> SpawnerSystem \<Rightarrow> error + SpawnerSystem" where
  "cleanupDeadEnemies_at now i s =
     (if i < length (deadEnemies s) then
        (let r = deadEnemies s ! i
         in case objects s r of
              None \<Rightarrow> Inl TypeError
            | Some enemy \<Rightarrow>
                if now - deathTime enemy > ZOMBIE_BODY_DESPAWN_TIME then
                  (case indexOf (enemies s) r of
                     Some enemyIndex \<Rightarrow> removeEnemy enemyIndex s
                   | None \<Rightarrow> Inr s)
                else Inr s)
      else Inl TypeError)"

fun cleanupDeadEnemies_from :: "nat \<Rightarrow> int \<Rightarrow> SpawnerSystem \<Rightarrow> error + SpawnerSystem" where
  "cleanupDeadEnemies_from 0 now s = Inr s"
| "cleanupDeadEnemies_from (Suc i) now s =
     (case cleanupDeadEnemies_at now i s of
        Inl e \<Rightarrow> Inl e
      | Inr s' \<Rightarrow> cleanupDeadEnemies_from i now s')"

definition cleanupDeadEnemies :: "int \<Rightarrow> SpawnerSystem \<Rightarrow> error + SpawnerSystem" where
  "cleanupDeadEnemies now s = cleanupDeadEnemies_from (length (deadEnemies s)) now s"

text \<open>
  \<open>update(deltaTime)\<close>; \<open>now\<close> is the reading of \<open>Date.now()\<close> in \<open>cleanupDeadEnemies\<close>.
\<close>

definition update :: "real \<Rightarrow> (nat \<Rightarrow> int) \<Rightarrow> int \<Rightarrow> real \<Rightarrow> real \<Rightarrow> SpawnerSystem \<Rightarrow> error + SpawnerSystem" where
  "update deltaTime clock now rnd1 rnd2 s =
     (if \<not> isActive s then Inr s
      else
        (let s1 = s\<lparr>spawnTimer := spawnTimer s + deltaTime * 1000\<rparr>;
             s2 = (if ZOMBIE_SPAWN_INTERVAL \<le> spawnTimer s1
                   then spawnEnemy rnd1 rnd2 (s1\<lparr>spawnTimer := 0\<rparr>) else s1)
         in case updateEnemies deltaTime clock s2 of
              Inl e \<Rightarrow> Inl e
            | Inr s3 \<Rightarrow> cleanupDeadEnemies now s3))"

definition clear :: "SpawnerSystem \<Rightarrow> SpawnerSystem" where
  "clear s = s\<lparr>enemies := [], deadEnemies := []\<rparr>"

definition getLivingEnemies :: "SpawnerSystem \<Rightarrow> nat list" where
  "getLivingEnemies s =
     filter (\<lambda>r. case objects s r of Some e \<Rightarrow> \<not> isDead e | None \<Rightarrow> False) (enemies s)"

text \<open>
  The states of a spawner: the one the constructor builds, and every state that a call of one
  of its methods produces from one of them. The enemy objects are shared with the hit-scan
  and attack code of the game, which call \<open>takeDamage\<close> and \<open>attack\<close> on them between the
  spawner's own calls; these are steps too.
\<close>

inductive step :: "SpawnerSystem \<Rightarrow> SpawnerSystem \<Rightarrow> bool" where
  step_start: "step s (start s)"
| step_stop: "step s (stop s)"
| step_setPlayerPosition: "step s (setPlayerPosition p s)"
| step_update: "update deltaTime clock now rnd1 rnd2 s = Inr s' \<Longrightarrow> step s s'"
| step_spawnEnemy: "step s (spawnEnemy rnd1 rnd2 s)"
| step_updateEnemies: "updateEnemies deltaTime clock s = Inr s' \<Longrightarrow> step s s'"
| step_removeEnemy: "removeEnemy index s = Inr s' \<Longrightarrow> step s s'"
| step_cleanupDeadEnemies: "cleanupDeadEnemies now s = Inr s' \<Longrightarrow> step s s'"
| step_clear: "step s (clear s)"
| step_takeDamage:
    "objects s r = Some e \<Longrightarrow>
     step s (s\<lparr>objects := (objects s)(r \<mapsto> snd (takeDamage amount isHeadshot now e))\<rparr>)"
| step_attack:
    "objects s r = Some e \<Longrightarrow>
     step s (s\<lparr>objects := (objects s)(r \<mapsto> snd (attack now e))\<rparr>)"

inductive reachable :: "SpawnerSystem \<Rightarrow> bool" where
  reachable_new: "reachable SpawnerSystem_new"
| reachable_step: "reachable s \<Longrightarrow> step s s' \<Longrightarrow> reachable s'"

section \<open>Invariants of the spawner state\<close>

text \<open>
  The entries of both arrays are distinct references to objects the spawner has created, the
  dead list lies within the active list, and every entry of the dead list is a dead enemy.
\<close>

definition spawner_inv :: "SpawnerSystem \<Rightarrow> bool" where
  "spawner_inv s =
     (distinct (enemies s) \<and> distinct (deadEnemies s)
      \<and> set (deadEnemies s) \<subseteq> set (enemies s)
      \<and> (\<forall>r \<in> set (enemies s). r < enemyIdCounter s \<and> objects s r \<noteq> None)
      \<and> (\<forall>r \<in> set (deadEnemies s). \<exists>e. objects s r = Some e \<and> isDead e))"

text \<open>
  \<open>keeps_tracking s s'\<close>: an entry that has left the dead list has left the active list too, and
  a reference that was created earlier and is no longer active does not become active again.
  \<open>tracked_from i s\<close>: every dead enemy at index \<open>i\<close> or above of the active list is in the dead list.
\<close>

definition keeps_tracking :: "SpawnerSystem \<Rightarrow> SpawnerSystem \<Rightarrow> bool" where
  "keeps_tracking s s' =
     ((\<forall>r \<in> set (deadEnemies s). r \<notin> set (deadEnemies s') \<longrightarrow> r \<notin> set (enemies s'))
      \<and> (\<forall>r. r < enemyIdCounter s \<and> r \<notin> set (enemies s) \<longrightarrow> r \<notin> set (enemies s'))
      \<and> enemyIdCounter s \<le> enemyIdCounter s')"

definition tracked_from :: "nat \<Rightarrow> SpawnerSystem \<Rightarrow> bool" where
  "tracked_from i s =
     (\<forall>r \<in> set (drop i (enemies s)).
        \<forall>e. objects s r = Some e \<and> isDead e \<longrightarrow> r \<in> set (deadEnemies s))"

section \<open>Example inputs\<close>

definition fixed_clock :: "int \<Rightarrow> nat \<Rightarrow> int" where
  "fixed_clock t i = t"

definition zero_vector :: Vector3 where "zero_vector = \<lparr> vx = 0, vy = 0, vz = 0 \<rparr>"
definition forward :: Vector3 where "forward = \<lparr> vx = 0, vy = 0, vz = 1 \<rparr>"
definition front_origin :: Vector3 where "front_origin = \<lparr> vx = 0, vy = 0, vz = - 5 \<rparr>"
definition behind_origin :: Vector3 where "behind_origin = \<lparr> vx = 0, vy = 0, vz = 5 \<rparr>"

text \<open>A pistol whose magazine has been emptied.\<close>

definition empty_pistol_state :: GameState where
  "empty_pistol_state = fst (setState_weapons_ammo ''pistol'' 0 initialState)"

text \<open>
  A started spawner that has spawned one enemy with both random numbers 0, which puts the
  enemy at distance 60 along the x axis; the enemy as spawned, and after a lethal hit at time
  1000.
\<close>

definition first_enemy :: Enemy where
  "first_enemy = Enemy_init \<lparr> vx = 60, vy = 0, vz = 0 \<rparr> (Enemy_new 0)"

definition killed_enemy :: Enemy where
  "killed_enemy = snd (takeDamage 100 False 1000 first_enemy)"

definition spawned_one :: SpawnerSystem where
  "spawned_one = spawnEnemy 0 0 (start SpawnerSystem_new)"

definition stopped_one :: SpawnerSystem where
  "stopped_one = stop (setPlayerPosition \<lparr> vx = 59, vy = 0, vz = 0 \<rparr> spawned_one)"

definition killed_one :: SpawnerSystem where
  "killed_one = spawned_one\<lparr>objects := (objects spawned_one)(0 \<mapsto> killed_enemy)\<rparr>"

definition tracked_one :: SpawnerSystem where
  "tracked_one = killed_one\<lparr>deadEnemies := [0]\<rparr>"

lemmas setState_defs =
  setState_player_health_def setState_player_maxHealth_def setState_player_armor_def
  setState_player_maxArmor_def setState_weapons_ammo_def

section \<open>Properties of GameState\<close>


text \<open>
  C1. For every starting armor value a > 0 and every damage amount d with 0 <= d <= a,
  damage(d) leaves player.health unchanged and reduces player.armor by exactly d.
\<close>

theorem damage_within_armor:
  assumes "0 < armor (player s)" and "0 \<le> d" and "d \<le> armor (player s)"
  shows "health (player (fst (damage d s))) = health (player s)
       \<and> armor (player (fst (damage d s))) = armor (player s) - d"
  using assms by (simp add: damage_def setState_defs Let_def min_def)

theorem damage_within_armor_witness:
  "0 < armor (player (fst (addArmor 50 0 initialState)))
   \<and> (0::int) \<le> 30
   \<and> 30 \<le> armor (player (fst (addArmor 50 0 initialState)))
   \<and> health (player (fst (damage 30 (fst (addArmor 50 0 initialState))))) = 100
   \<and> armor (player (fst (damage 30 (fst (addArmor 50 0 initialState))))) = 20"
proof -
  let ?s = "fst (addArmor 50 0 initialState)"
  have a: "armor (player ?s) = 50" and h: "health (player ?s) = 100"
    by (simp_all add: addArmor_def setState_defs initialState_def)
  have p: "0 < armor (player ?s)" "(0::int) \<le> 30" "30 \<le> armor (player ?s)"
    using a by simp_all
  from damage_within_armor [OF p] a h p show ?thesis by simp
qed

text \<open>
  C2. For every starting armor value armor0 > 0 and every damage amount d > armor0, damage(d)
  sets player.armor to 0, publishes ARMOR_BROKEN exactly once during the call, and decreases
  player.health by d - armor0, floored at 0.
\<close>

theorem damage_beyond_armor:
  assumes "0 < armor (player s)" and "armor (player s) < d"
  shows "armor (player (fst (damage d s))) = 0
       \<and> published ARMOR_BROKEN (snd (damage d s)) = 1
       \<and> health (player (fst (damage d s)))
           = max 0 (health (player s) - (d - armor (player s)))"
  using assms by (simp add: damage_def setState_defs Let_def min_def published_def)

theorem damage_beyond_armor_witness:
  "0 < armor (player (fst (addArmor 20 0 initialState)))
   \<and> armor (player (fst (addArmor 20 0 initialState))) < 50
   \<and> armor (player (fst (damage 50 (fst (addArmor 20 0 initialState))))) = 0
   \<and> published ARMOR_BROKEN (snd (damage 50 (fst (addArmor 20 0 initialState)))) = 1
   \<and> health (player (fst (damage 50 (fst (addArmor 20 0 initialState))))) = 70"
proof -
  let ?s = "fst (addArmor 20 0 initialState)"
  have a: "armor (player ?s) = 20" and h: "health (player ?s) = 100"
    by (simp_all add: addArmor_def setState_defs initialState_def)
  have p: "0 < armor (player ?s)" "armor (player ?s) < 50"
    using a by simp_all
  from damage_beyond_armor [OF p] a h p show ?thesis by simp
qed

text \<open>
  C3, as stated: PLAYER_DIED is published exactly once per descent of player.health to 0, and
  no further damage call publishes it again while health remains 0. The second half fails:
  after a call that has brought health from 100 to 0 and published the event, the next
  damaging call finds health 0, leaves it at 0 and publishes the event again.
\<close>

theorem damage_PLAYER_DIED_repeated:
  "0 < health (player initialState)
   \<and> health (player (fst (damage 100 initialState))) = 0
   \<and> published PLAYER_DIED (snd (damage 100 initialState)) = 1
   \<and> health (player (fst (damage 10 (fst (damage 100 initialState))))) = 0
   \<and> published PLAYER_DIED (snd (damage 10 (fst (damage 100 initialState)))) = 1"
  by (simp add: damage_def setState_defs Let_def published_def initialState_def)

text \<open>
  C3, amended: a damage call that brings health from a positive value to 0 publishes
  PLAYER_DIED exactly once during that call. While health is 0, a further damage call whose
  amount exceeds the armor publishes PLAYER_DIED once more and leaves health at 0; a call
  whose amount the armor absorbs in full publishes none.
\<close>

theorem damage_PLAYER_DIED_per_call:
  "(0 < health (player s) \<and> health (player (fst (damage d s))) = 0
      \<longrightarrow> published PLAYER_DIED (snd (damage d s)) = 1)
   \<and> (health (player s) = 0 \<and> 0 \<le> armor (player s) \<and> armor (player s) < d
      \<longrightarrow> published PLAYER_DIED (snd (damage d s)) = 1
          \<and> health (player (fst (damage d s))) = 0)
   \<and> (health (player s) = 0 \<and> 0 \<le> armor (player s) \<and> d \<le> armor (player s)
      \<longrightarrow> published PLAYER_DIED (snd (damage d s)) = 0)"
  by (simp add: damage_def setState_defs Let_def min_def max_def published_def)

theorem damage_PLAYER_DIED_per_call_witness:
  "health (player (fst (damage 100 initialState))) = 0
   \<and> 0 \<le> armor (player (fst (damage 100 initialState)))
   \<and> armor (player (fst (damage 100 initialState))) < 10
   \<and> published PLAYER_DIED (snd (damage 10 (fst (damage 100 initialState)))) = 1
   \<and> health (player (fst (damage 10 (fst (damage 100 initialState))))) = 0"
proof -
  let ?s = "fst (damage 100 initialState)"
  have p: "health (player ?s) = 0 \<and> 0 \<le> armor (player ?s) \<and> armor (player ?s) < 10"
    by (simp add: damage_def setState_defs Let_def initialState_def)
  from damage_PLAYER_DIED_per_call [of ?s 10] p show ?thesis by simp
qed

text \<open>
  C10. For every non-negative amount, heal(amount) sets player.health to
  min(maxHealth, health + amount): it never raises health above player.maxHealth, never
  decreases health when health <= maxHealth, and leaves every other state field unchanged.
\<close>

theorem heal_capped:
  assumes "0 \<le> amount"
  shows "fst (heal amount s)
           = s\<lparr>player := (player s)
                 \<lparr>health := min (maxHealth (player s)) (health (player s) + amount)\<rparr>\<rparr>
       \<and> health (player (fst (heal amount s))) \<le> maxHealth (player s)
       \<and> (health (player s) \<le> maxHealth (player s)
            \<longrightarrow> health (player s) \<le> health (player (fst (heal amount s))))"
  using assms by (simp add: heal_def setState_defs Let_def)

theorem heal_capped_witness:
  "(0::int) \<le> 25
   \<and> health (player (fst (damage 50 initialState))) = 50
   \<and> health (player (fst (heal 25 (fst (damage 50 initialState))))) = 75
   \<and> health (player (fst (heal 25 (fst (damage 50 initialState)))))
        \<le> maxHealth (player (fst (damage 50 initialState)))"
proof -
  let ?s = "fst (damage 50 initialState)"
  have h: "health (player ?s) = 50" and m: "maxHealth (player ?s) = 100"
    by (simp_all add: damage_def setState_defs Let_def initialState_def)
  have p: "(0::int) \<le> 25" by simp
  from heal_capped [OF p, of ?s] h m show ?thesis by simp
qed

section \<open>Properties of Weapon\<close>

text \<open>
  C4, as stated: when fire() fails because ammo is 0, the WEAPON_EMPTY notification is produced
  only by the store's useAmmo path, never by the Weapon object itself. With an empty pistol
  magazine and the cooldown long over, fire() fails, leaves the store untouched, and the one
  emission of the call is WEAPON_EMPTY made by the weapon.
\<close>

theorem fire_emits_WEAPON_EMPTY:
  "get_weapons_ammo ''pistol'' empty_pistol_state = Some 0
   \<and> fire (Weapon_new ''pistol'') 1000 empty_pistol_state
       = (False, Weapon_new ''pistol'', empty_pistol_state,
          [(WeaponObject, WEAPON_EMPTY ''pistol'')])"
  by (simp add: fire_def canFire_def gt_zero_def le_zero_def get_weapons_ammo_def
      empty_pistol_state_def setState_weapons_ammo_def initialState_def Weapon_new_def)

text \<open>
  C4, amended: whenever fire() fails it returns false and changes neither the weapon nor the
  store. If the weapon still has ammo (the failure is the cooldown alone) it publishes no
  event. If the weapon's ammo is 0 or less, the Weapon object itself publishes WEAPON_EMPTY
  once; the store's useAmmo path is not entered and publishes nothing.
\<close>

theorem fire_failure:
  assumes "\<not> canFire w now s"
  shows "(case fire w now s of (fired, w', s', es) \<Rightarrow>
           \<not> fired \<and> w' = w \<and> s' = s
           \<and> (gt_zero (get_weapons_ammo (wtype w) s) \<longrightarrow> es = [])
           \<and> (le_zero (get_weapons_ammo (wtype w) s)
                \<longrightarrow> es = [(WeaponObject, WEAPON_EMPTY (wtype w))])
           \<and> (\<forall>e \<in> set es. fst e \<noteq> GameStateStore))"
  using assms by (auto simp: fire_def gt_zero_def le_zero_def split: option.splits)

theorem fire_failure_witness:
  "\<not> canFire (Weapon_new ''pistol'') 1000 empty_pistol_state
   \<and> fst (fire (Weapon_new ''pistol'') 1000 empty_pistol_state) = False
   \<and> snd (snd (snd (fire (Weapon_new ''pistol'') 1000 empty_pistol_state)))
       = [(WeaponObject, WEAPON_EMPTY ''pistol'')]"
proof -
  let ?w = "Weapon_new ''pistol''"
  have a: "get_weapons_ammo (wtype ?w) empty_pistol_state = Some 0"
    by (simp add: get_weapons_ammo_def empty_pistol_state_def setState_weapons_ammo_def
        initialState_def Weapon_new_def)
  have p: "\<not> canFire ?w 1000 empty_pistol_state"
    using a by (simp add: canFire_def gt_zero_def)
  have l: "le_zero (get_weapons_ammo (wtype ?w) empty_pistol_state)"
    using a by (simp add: le_zero_def)
  from fire_failure [OF p] l p show ?thesis
    by (auto split: prod.splits simp: Weapon_new_def)
qed

section \<open>Properties of Enemy\<close>

lemma killed_enemy_eq:
  "killed_enemy =
     \<lparr> enemy_id = 0, position = \<lparr> vx = 60, vy = 3 / 10, vz = 0 \<rparr>, enemy_health = 0,
       isDead = True, deathTime = 1000, lastAttackTime = 0, head = True \<rparr>"
  by (simp add: killed_enemy_def takeDamage_def die_def first_enemy_def Enemy_init_def
      Enemy_new_def ZOMBIE_HEALTH_def Let_def)

text \<open>
  C8. For every enemy whose life state is Dead and every damage amount, takeDamage returns
  "not killed" (false) and leaves the enemy's health, death timestamp and life state unchanged.
\<close>

theorem takeDamage_dead:
  assumes "isDead e"
  shows "takeDamage amount isHeadshot now e = (False, e)"
  using assms by (simp add: takeDamage_def)

theorem takeDamage_dead_witness:
  "isDead killed_enemy
   \<and> takeDamage 50 True 2000 killed_enemy = (False, killed_enemy)
   \<and> enemy_health killed_enemy = 0 \<and> deathTime killed_enemy = 1000"
proof -
  have d: "isDead killed_enemy" by (simp add: killed_enemy_eq)
  from takeDamage_dead [OF d, of 50 True 2000] d show ?thesis
    by (simp add: killed_enemy_eq)
qed

lemma Enemy_update_isDead: "isDead (snd (Enemy_update deltaTime now p e)) = isDead e"
  by (simp add: Enemy_update_def Let_def)

lemma takeDamage_isDead: "isDead e \<Longrightarrow> isDead (snd (takeDamage amount isHeadshot now e))"
  by (simp add: takeDamage_def)

lemma attack_isDead: "isDead (snd (attack now e)) = isDead e"
  by (simp add: attack_def)

section \<open>Properties of CollisionSystem.raycastSphere\<close>

lemma ray_on_sphere_quadratic:
  "ray_on_sphere origin direction center radius t =
     (dot direction direction * (t * t)
        + 2 * dot (subVectors origin center) direction * t
        + (dot (subVectors origin center) (subVectors origin center) - radius * radius) = 0)"
  unfolding ray_on_sphere_def Let_def dot_def subVectors_def addVectors_def multiplyScalar_def
  by (simp add: algebra_simps)

lemma quadratic_completed:
  fixes a b c t :: real
  assumes "0 < a"
  shows "(a * (t * t) + b * t + c = 0) = ((2 * a * t + b) * (2 * a * t + b) = b * b - 4 * a * c)"
proof -
  have "(2 * a * t + b) * (2 * a * t + b) - (b * b - 4 * a * c)
          = 4 * a * (a * (t * t) + b * t + c)"
    by (simp add: algebra_simps)
  then show ?thesis using assms by auto
qed

lemma quadratic_no_root:
  fixes a b c t :: real
  assumes "0 < a" and "b * b - 4 * a * c < 0"
  shows "a * (t * t) + b * t + c \<noteq> 0"
proof
  assume "a * (t * t) + b * t + c = 0"
  then have "(2 * a * t + b) * (2 * a * t + b) = b * b - 4 * a * c"
    using quadratic_completed [OF assms(1)] by blast
  moreover have "0 \<le> (2 * a * t + b) * (2 * a * t + b)" by simp
  ultimately show False using assms(2) by linarith
qed

lemma quadratic_smaller_root:
  fixes a b c :: real
  assumes "0 < a" and "0 \<le> b * b - 4 * a * c"
  defines "t0 \<equiv> (- b - sqrt (b * b - 4 * a * c)) / (2 * a)"
  shows "a * (t0 * t0) + b * t0 + c = 0"
    and "a * (u * u) + b * u + c = 0 \<Longrightarrow> t0 \<le> u"
proof -
  let ?s = "sqrt (b * b - 4 * a * c)"
  have s: "?s * ?s = b * b - 4 * a * c" "0 \<le> ?s" using assms(2) by simp_all
  have e: "2 * a * t0 + b = - ?s" using assms(1) by (simp add: t0_def field_simps)
  show "a * (t0 * t0) + b * t0 + c = 0"
    unfolding quadratic_completed [OF assms(1)] e using s(1) by simp
  assume "a * (u * u) + b * u + c = 0"
  then have "(2 * a * u + b) * (2 * a * u + b) = ?s * ?s"
    using quadratic_completed [OF assms(1)] s(1) by simp
  then have "(2 * a * u + b)\<^sup>2 = ?s\<^sup>2"
    by (simp only: power2_eq_square)
  then have "2 * a * u + b = ?s \<or> 2 * a * u + b = - ?s"
    by (simp only: power2_eq_iff)
  then have "- ?s \<le> 2 * a * u + b" using s(2) by linarith
  then have "2 * a * t0 \<le> 2 * a * u" using e by linarith
  then show "t0 \<le> u" using assms(1) by simp
qed

text \<open>
  C6. For every ray origin, direction of positive length (a normalized one in particular),
  sphere center and radius: raycastSphere returns null whenever the center projects behind
  the origin along the direction; in general it returns null exactly when the ray equation
  has no real solution (negative discriminant) or its smaller solution is negative, and
  otherwise it returns the smaller solution t as the distance, with the point origin + t
  direction.
\<close>

theorem raycastSphere_smaller_root:
  assumes "0 < dot direction direction"
  shows "(dot (subVectors center origin) direction < 0
            \<longrightarrow> raycastSphere origin direction center radius = None)
       \<and> ((raycastSphere origin direction center radius = None)
            = ((\<forall>t. \<not> ray_on_sphere origin direction center radius t)
               \<or> (\<exists>t<0. ray_on_sphere origin direction center radius t
                     \<and> (\<forall>u. ray_on_sphere origin direction center radius u \<longrightarrow> t \<le> u))))
       \<and> (\<forall>h. raycastSphere origin direction center radius = Some h
            \<longrightarrow> 0 \<le> distance h
                \<and> ray_on_sphere origin direction center radius (distance h)
                \<and> (\<forall>u. ray_on_sphere origin direction center radius u \<longrightarrow> distance h \<le> u)
                \<and> point h = addVectors origin (multiplyScalar direction (distance h)))"
proof -
  define a where "a = dot direction direction"
  define b where "b = 2 * dot (subVectors origin center) direction"
  define c where "c = dot (subVectors origin center) (subVectors origin center) - radius * radius"
  define t0 where "t0 = (- b - sqrt (b * b - 4 * a * c)) / (2 * a)"
  have a: "0 < a" using assms by (simp add: a_def)
  have on: "ray_on_sphere origin direction center radius t = (a * (t * t) + b * t + c = 0)" for t
    by (simp add: ray_on_sphere_quadratic a_def b_def c_def)
  have rc: "raycastSphere origin direction center radius =
              (if b * b - 4 * a * c < 0 then None
               else if t0 < 0 then None
               else Some \<lparr> distance = t0, point = addVectors origin (multiplyScalar direction t0) \<rparr>)"
    by (simp add: raycastSphere_def Let_def a_def b_def c_def t0_def)
  have behind: "raycastSphere origin direction center radius = None"
    if h: "dot (subVectors center origin) direction < 0"
  proof (cases "b * b - 4 * a * c < 0")
    case True
    then show ?thesis by (simp add: rc)
  next
    case False
    have "dot (subVectors origin center) direction = - dot (subVectors center origin) direction"
      by (simp add: dot_def subVectors_def algebra_simps)
    then have "0 < b" using h by (simp add: b_def)
    moreover have "0 \<le> sqrt (b * b - 4 * a * c)" using False by simp
    ultimately have "- b - sqrt (b * b - 4 * a * c) < 0" by linarith
    then have "t0 < 0" using a by (simp add: t0_def divide_neg_pos)
    then show ?thesis by (simp add: rc)
  qed
  have none: "(raycastSphere origin direction center radius = None)
            = ((\<forall>t. \<not> ray_on_sphere origin direction center radius t)
               \<or> (\<exists>t<0. ray_on_sphere origin direction center radius t
                     \<and> (\<forall>u. ray_on_sphere origin direction center radius u \<longrightarrow> t \<le> u)))"
  proof (cases "b * b - 4 * a * c < 0")
    case True
    then have "\<forall>t. \<not> ray_on_sphere origin direction center radius t"
      using quadratic_no_root [OF a] by (simp add: on)
    then show ?thesis using True by (simp add: rc)
  next
    case False
    then have d: "0 \<le> b * b - 4 * a * c" by simp
    note root = quadratic_smaller_root [OF a d, folded t0_def]
    have r0: "ray_on_sphere origin direction center radius t0" using root(1) by (simp add: on)
    have least: "t0 \<le> u" if "ray_on_sphere origin direction center radius u" for u
      using root(2) that by (simp add: on)
    show ?thesis
    proof (cases "t0 < 0")
      case True
      then show ?thesis using False r0 least by (auto simp: rc)
    next
      case nonneg: False
      have "\<not> (\<exists>t<0. ray_on_sphere origin direction center radius t
                 \<and> (\<forall>u. ray_on_sphere origin direction center radius u \<longrightarrow> t \<le> u))"
      proof
        assume "\<exists>t<0. ray_on_sphere origin direction center radius t
                 \<and> (\<forall>u. ray_on_sphere origin direction center radius u \<longrightarrow> t \<le> u)"
        then obtain t where t: "t < 0" "ray_on_sphere origin direction center radius t" by blast
        from least [OF t(2)] t(1) nonneg show False by linarith
      qed
      then show ?thesis using False nonneg r0 by (auto simp: rc)
    qed
  qed
  have some: "0 \<le> distance h
                \<and> ray_on_sphere origin direction center radius (distance h)
                \<and> (\<forall>u. ray_on_sphere origin direction center radius u \<longrightarrow> distance h \<le> u)
                \<and> point h = addVectors origin (multiplyScalar direction (distance h))"
    if h: "raycastSphere origin direction center radius = Some h" for h
  proof -
    from h have d: "0 \<le> b * b - 4 * a * c" and n: "0 \<le> t0"
      and hh: "h = \<lparr> distance = t0, point = addVectors origin (multiplyScalar direction t0) \<rparr>"
      by (auto simp: rc split: if_splits)
    note root = quadratic_smaller_root [OF a d, folded t0_def]
    have dh: "distance h = t0" "point h = addVectors origin (multiplyScalar direction t0)"
      by (simp_all add: hh)
    show ?thesis
      unfolding dh using n root by (simp add: on)
  qed
  show ?thesis using behind none some by blast
qed

lemma raycastSphere_front:
  "raycastSphere front_origin forward zero_vector 1
     = Some \<lparr> distance = 4, point = \<lparr> vx = 0, vy = 0, vz = - 1 \<rparr> \<rparr>"
  by (simp add: raycastSphere_def Let_def dot_def subVectors_def addVectors_def
      multiplyScalar_def forward_def zero_vector_def front_origin_def)

theorem raycastSphere_smaller_root_witness:
  "0 < dot forward forward
   \<and> dot (subVectors zero_vector behind_origin) forward < 0
   \<and> raycastSphere behind_origin forward zero_vector 1 = None
   \<and> raycastSphere front_origin forward zero_vector 1
        = Some \<lparr> distance = 4, point = \<lparr> vx = 0, vy = 0, vz = - 1 \<rparr> \<rparr>
   \<and> ray_on_sphere front_origin forward zero_vector 1 4"
proof -
  have p: "0 < dot forward forward" by (simp add: dot_def forward_def)
  have q: "dot (subVectors zero_vector behind_origin) forward < 0"
    by (simp add: dot_def subVectors_def forward_def zero_vector_def behind_origin_def)
  have n: "raycastSphere behind_origin forward zero_vector 1 = None"
    using raycastSphere_smaller_root [OF p, of zero_vector behind_origin 1] q by blast
  have "ray_on_sphere front_origin forward zero_vector 1 4"
    using raycastSphere_smaller_root [OF p, of zero_vector front_origin 1] raycastSphere_front
    by simp
  then show ?thesis using p q n raycastSphere_front by simp
qed

section \<open>Properties of SpawnerSystem\<close>

lemma clamp_abs_le: "0 \<le> b \<Longrightarrow> \<bar>max (- b) (min b x)\<bar> \<le> (b::real)"
  by (auto simp: max_def min_def)

text \<open>
  C7. For every player position and every pair of random numbers (hence every angle in
  [0, 2 pi) and every distance in the configured spawn range), the position returned by
  getSpawnPosition satisfies |x| <= boundary and |z| <= boundary, where boundary is the
  configured map boundary.
\<close>

theorem getSpawnPosition_in_bounds:
  "\<bar>vx (getSpawnPosition rnd1 rnd2 s)\<bar> \<le> MAP_BOUNDARY
   \<and> \<bar>vz (getSpawnPosition rnd1 rnd2 s)\<bar> \<le> MAP_BOUNDARY"
  by (simp add: getSpawnPosition_def Let_def MAP_BOUNDARY_def clamp_abs_le)

theorem getSpawnPosition_in_bounds_witness:
  "vx (getSpawnPosition 0 0 (setPlayerPosition \<lparr> vx = 90, vy = 0, vz = 0 \<rparr> SpawnerSystem_new)) = 95
   \<and> \<bar>vx (getSpawnPosition 0 0
            (setPlayerPosition \<lparr> vx = 90, vy = 0, vz = 0 \<rparr> SpawnerSystem_new))\<bar> \<le> MAP_BOUNDARY"
proof -
  let ?s = "setPlayerPosition \<lparr> vx = 90, vy = 0, vz = 0 \<rparr> SpawnerSystem_new"
  have "vx (getSpawnPosition 0 0 ?s) = 95"
    by (simp add: getSpawnPosition_def Let_def setPlayerPosition_def SpawnerSystem_new_def
        ZOMBIE_SPAWN_DISTANCE_MIN_def ZOMBIE_SPAWN_DISTANCE_MAX_def MAP_BOUNDARY_def)
  then show ?thesis using getSpawnPosition_in_bounds [of 0 0 ?s] by simp
qed

lemma spawned_one_eq:
  "spawned_one =
     \<lparr> enemies = [0], deadEnemies = [], objects = [0 \<mapsto> first_enemy], spawnTimer = 0,
       enemyIdCounter = 1, isActive = True, playerPosition = \<lparr> vx = 0, vy = 0, vz = 0 \<rparr> \<rparr>"
  by (simp add: spawned_one_def spawnEnemy_def getSpawnPosition_def start_def Let_def
      SpawnerSystem_new_def first_enemy_def ZOMBIE_SPAWN_DISTANCE_MIN_def
      ZOMBIE_SPAWN_DISTANCE_MAX_def MAP_BOUNDARY_def)

text \<open>
  C5, as stated: when the active flag is false, update(deltaTime) spawns no entity but still
  advances every already-spawned entity. On a stopped spawner holding one living enemy at
  x = 60, with the player at x = 59, the enemy's own update would move it to x = 58, but the
  spawner's update returns the state as it was: the enemy is not advanced.
\<close>

theorem update_inactive_skips_enemies:
  "\<not> isActive stopped_one
   \<and> enemies stopped_one = [0]
   \<and> objects stopped_one 0 = Some first_enemy
   \<and> position first_enemy = \<lparr> vx = 60, vy = 0, vz = 0 \<rparr>
   \<and> position (snd (Enemy_update 1 0 (playerPosition stopped_one) first_enemy))
        = \<lparr> vx = 58, vy = 0, vz = 0 \<rparr>
   \<and> update 1 (fixed_clock 0) 0 0 0 stopped_one = Inr stopped_one"
  by (simp add: stopped_one_def stop_def setPlayerPosition_def spawned_one_eq update_def
      Enemy_update_def first_enemy_def Enemy_init_def Enemy_new_def normalize_def vlength_def
      dot_def subVectors_def ZOMBIE_SPEED_def Let_def)

text \<open>
  C5, amended: when the active flag is false, update(deltaTime) returns at once: it spawns no
  entity and advances no entity; the spawn timer, both arrays and every enemy object are
  left as they were.
\<close>

theorem update_inactive:
  assumes "\<not> isActive s"
  shows "update deltaTime clock now rnd1 rnd2 s = Inr s"
  using assms by (simp add: update_def)

theorem update_inactive_witness:
  "\<not> isActive stopped_one
   \<and> update 1 (fixed_clock 0) 0 0 0 stopped_one = Inr stopped_one"
proof -
  have p: "\<not> isActive stopped_one" by (simp add: stopped_one_def stop_def)
  from update_inactive [OF p, of 1 "fixed_clock 0" 0 0 0] p show ?thesis by simp
qed

subsection \<open>List operations\<close>

lemma indexOf_Some: "indexOf xs a = Some i \<Longrightarrow> i < length xs \<and> xs ! i = a"
  by (induction xs arbitrary: i) (auto split: if_splits)

lemma indexOf_None: "(indexOf xs a = None) = (a \<notin> set xs)"
  by (induction xs) auto

lemma distinct_splice1: "distinct xs \<Longrightarrow> distinct (splice1 i xs)"
  unfolding splice1_def
proof -
  assume d: "distinct xs"
  have "distinct (take i xs @ drop i xs)" using d by simp
  then have "set (take i xs) \<inter> set (drop i xs) = {}" by (simp only: distinct_append)
  moreover have "set (drop (Suc i) xs) \<subseteq> set (drop i xs)"
    by (metis drop_Suc set_drop_subset tl_drop drop_drop plus_1_eq_Suc)
  ultimately have "set (take i xs) \<inter> set (drop (Suc i) xs) = {}" by blast
  then show "distinct (take i xs @ drop (Suc i) xs)"
    using d by (simp add: distinct_append)
qed

lemma nth_notin_drop_Suc:
  assumes "distinct xs" and "i < length xs"
  shows "xs ! i \<notin> set (drop (Suc i) xs)" and "xs ! i \<notin> set (take i xs)"
proof -
  have "distinct (take i xs @ xs ! i # drop (Suc i) xs)"
    using assms(1) by (simp only: id_take_nth_drop [OF assms(2), symmetric])
  then show "xs ! i \<notin> set (drop (Suc i) xs)" and "xs ! i \<notin> set (take i xs)" by simp_all
qed

lemma set_splice1:
  assumes "distinct xs" and "i < length xs"
  shows "set (splice1 i xs) = set xs - {xs ! i}"
proof -
  note n = nth_notin_drop_Suc [OF assms]
  have "set xs = set (take i xs @ xs ! i # drop (Suc i) xs)"
    by (rule arg_cong [where f = set, OF id_take_nth_drop [OF assms(2)]])
  then have "set xs = set (take i xs) \<union> {xs ! i} \<union> set (drop (Suc i) xs)"
    by simp
  then show ?thesis using n by (auto simp: splice1_def)
qed

lemma length_splice1: "i < length xs \<Longrightarrow> length (splice1 i xs) = length xs - 1"
  by (auto simp: splice1_def)

lemma drop_splice1: "i \<le> length xs \<Longrightarrow> drop i (splice1 i xs) = drop (Suc i) xs"
  by (simp add: splice1_def min_def)

subsection \<open>removeEnemy\<close>

lemma removeEnemy_eq:
  "i < length (enemies s) \<Longrightarrow>
   removeEnemy i s =
     Inr (s\<lparr>enemies := splice1 i (enemies s),
            deadEnemies := (case indexOf (deadEnemies s) (enemies s ! i) of
                              Some j \<Rightarrow> splice1 j (deadEnemies s)
                            | None \<Rightarrow> deadEnemies s)\<rparr>)"
  by (simp add: removeEnemy_def Let_def split: option.splits)

lemma removeEnemy_total: "i < length (enemies s) \<Longrightarrow> \<exists>s'. removeEnemy i s = Inr s'"
  using removeEnemy_eq by blast

lemma removeEnemy_index: "removeEnemy i s = Inr s' \<Longrightarrow> i < length (enemies s)"
  by (simp add: removeEnemy_def split: if_splits)

lemma removeEnemy_Inr:
  assumes "removeEnemy i s = Inr s'"
  shows "enemies s' = splice1 i (enemies s)"
    and "objects s' = objects s" and "enemyIdCounter s' = enemyIdCounter s"
    and "deadEnemies s' = (case indexOf (deadEnemies s) (enemies s ! i) of
                              Some j \<Rightarrow> splice1 j (deadEnemies s)
                            | None \<Rightarrow> deadEnemies s)"
proof -
  have i: "i < length (enemies s)" using assms by (rule removeEnemy_index)
  have e: "s' = s\<lparr>enemies := splice1 i (enemies s),
            deadEnemies := (case indexOf (deadEnemies s) (enemies s ! i) of
                              Some j \<Rightarrow> splice1 j (deadEnemies s)
                            | None \<Rightarrow> deadEnemies s)\<rparr>"
    using assms removeEnemy_eq [OF i] by simp
  show "enemies s' = splice1 i (enemies s)" by (subst e) simp
  show "objects s' = objects s" by (subst e) simp
  show "enemyIdCounter s' = enemyIdCounter s" by (subst e) simp
  show "deadEnemies s' = (case indexOf (deadEnemies s) (enemies s ! i) of
                              Some j \<Rightarrow> splice1 j (deadEnemies s)
                            | None \<Rightarrow> deadEnemies s)" by (subst e) simp
qed

lemma removeEnemy_sets:
  assumes "spawner_inv s" and "removeEnemy i s = Inr s'"
  shows "set (enemies s') = set (enemies s) - {enemies s ! i}"
    and "set (deadEnemies s') = set (deadEnemies s) - {enemies s ! i}"
    and "distinct (enemies s')" and "distinct (deadEnemies s')"
    and "length (enemies s') = length (enemies s) - 1"
    and "length (deadEnemies s) - 1 \<le> length (deadEnemies s')"
proof -
  note r = removeEnemy_Inr [OF assms(2)]
  have i: "i < length (enemies s)" using assms(2) by (rule removeEnemy_index)
  have d: "distinct (enemies s)" "distinct (deadEnemies s)"
    using assms(1) by (simp_all add: spawner_inv_def)
  show "set (enemies s') = set (enemies s) - {enemies s ! i}"
    using r(1) i d(1) by (simp add: set_splice1)
  show "distinct (enemies s')" using r(1) d(1) by (simp add: distinct_splice1)
  show "length (enemies s') = length (enemies s) - 1" using r(1) i by (simp add: length_splice1)
  show "set (deadEnemies s') = set (deadEnemies s) - {enemies s ! i}"
  proof (cases "indexOf (deadEnemies s) (enemies s ! i)")
    case None
    then have "enemies s ! i \<notin> set (deadEnemies s)" by (simp add: indexOf_None)
    then show ?thesis using None r(4) by simp
  next
    case (Some j)
    then show ?thesis using r(4) indexOf_Some [OF Some] d(2) by (simp add: set_splice1)
  qed
  show "distinct (deadEnemies s')"
    using r(4) d(2) by (simp add: distinct_splice1 split: option.splits)
  show "length (deadEnemies s) - 1 \<le> length (deadEnemies s')"
  proof (cases "indexOf (deadEnemies s) (enemies s ! i)")
    case None
    then show ?thesis using r(4) by simp
  next
    case (Some j)
    then show ?thesis using r(4) indexOf_Some [OF Some] by (simp add: length_splice1)
  qed
qed

lemma removeEnemy_inv:
  assumes "spawner_inv s" and "removeEnemy i s = Inr s'"
  shows "spawner_inv s'"
proof -
  note t = removeEnemy_sets [OF assms] and r = removeEnemy_Inr [OF assms(2)]
  have a: "set (deadEnemies s') \<subseteq> set (enemies s')"
    using assms(1) t(1,2) by (auto simp: spawner_inv_def)
  have b: "\<forall>r \<in> set (enemies s'). r < enemyIdCounter s' \<and> objects s' r \<noteq> None"
    using assms(1) t(1) r(2,3) by (simp add: spawner_inv_def)
  have c: "\<forall>r \<in> set (deadEnemies s'). \<exists>e. objects s' r = Some e \<and> isDead e"
    using assms(1) t(2) r(2) by (simp add: spawner_inv_def)
  show ?thesis
    unfolding spawner_inv_def using t(3,4) a b c by simp
qed

subsection \<open>The invariant is kept, and the loops do not fail\<close>

lemma inv_objects_upd:
  assumes "spawner_inv s" and "objects s r = Some e" and "isDead e \<longrightarrow> isDead e'"
  shows "spawner_inv (s\<lparr>objects := (objects s)(r \<mapsto> e')\<rparr>)"
  using assms unfolding spawner_inv_def by auto

lemma inv_dead_append:
  assumes "spawner_inv s" and "r \<in> set (enemies s)" and "objects s r = Some e"
    and "isDead e" and "r \<notin> set (deadEnemies s)"
  shows "spawner_inv (s\<lparr>deadEnemies := deadEnemies s @ [r]\<rparr>)"
  using assms unfolding spawner_inv_def by auto

lemma inv_spawnEnemy: "spawner_inv s \<Longrightarrow> spawner_inv (spawnEnemy rnd1 rnd2 s)"
  unfolding spawner_inv_def spawnEnemy_def Let_def by (auto simp: less_Suc_eq)

lemma inv_spawnTimer: "spawner_inv (s\<lparr>spawnTimer := t\<rparr>) = spawner_inv s"
  by (simp add: spawner_inv_def)

lemma keeps_tracking_refl: "keeps_tracking s s"
  by (simp add: keeps_tracking_def)

lemma keeps_tracking_trans:
  assumes "spawner_inv s" and "keeps_tracking s s1" and "keeps_tracking s1 s2"
  shows "keeps_tracking s s2"
proof -
  have lt: "\<forall>r \<in> set (deadEnemies s). r < enemyIdCounter s"
    using assms(1) by (auto simp: spawner_inv_def)
  show ?thesis
    unfolding keeps_tracking_def
  proof (intro conjI ballI allI impI)
    fix r assume r: "r \<in> set (deadEnemies s)" "r \<notin> set (deadEnemies s2)"
    show "r \<notin> set (enemies s2)"
    proof (cases "r \<in> set (deadEnemies s1)")
      case True
      then show ?thesis using assms(3) r(2) by (simp add: keeps_tracking_def)
    next
      case False
      then have "r \<notin> set (enemies s1)" using assms(2) r(1) by (simp add: keeps_tracking_def)
      moreover have "r < enemyIdCounter s1" using lt r(1) assms(2) by (auto simp: keeps_tracking_def)
      ultimately show ?thesis using assms(3) by (simp add: keeps_tracking_def)
    qed
  next
    fix r assume r: "r < enemyIdCounter s \<and> r \<notin> set (enemies s)"
    then have "r \<notin> set (enemies s1)" "r < enemyIdCounter s1"
      using assms(2) by (auto simp: keeps_tracking_def)
    then show "r \<notin> set (enemies s2)" using assms(3) by (simp add: keeps_tracking_def)
  next
    show "enemyIdCounter s \<le> enemyIdCounter s2"
      using assms(2,3) by (simp add: keeps_tracking_def)
  qed
qed

lemma keeps_tracking_removeEnemy:
  assumes "spawner_inv s" and "removeEnemy i s = Inr s'"
  shows "keeps_tracking s s'"
  using removeEnemy_sets(1,2) [OF assms] removeEnemy_Inr(3) [OF assms(2)]
  by (auto simp: keeps_tracking_def)

lemma keeps_tracking_spawnEnemy:
  "spawner_inv s \<Longrightarrow> keeps_tracking s (spawnEnemy rnd1 rnd2 s)"
  by (auto simp: keeps_tracking_def spawnEnemy_def Let_def)

text \<open>One pass of the loop of updateEnemies, at an index within the array.\<close>

lemma updateEnemies_at_ok:
  assumes "spawner_inv s" and "i < length (enemies s)"
  shows "\<exists>s'. updateEnemies_at deltaTime clock i s = Inr s' \<and> spawner_inv s'
              \<and> i \<le> length (enemies s') \<and> keeps_tracking s s'
              \<and> (tracked_from (Suc i) s \<longrightarrow> tracked_from i s')"
proof -
  let ?r = "enemies s ! i"
  have dist: "distinct (enemies s)" using assms(1) by (simp add: spawner_inv_def)
  have rin: "?r \<in> set (enemies s)" using assms(2) by simp
  have rnot: "?r \<notin> set (drop (Suc i) (enemies s))"
    using dist assms(2) by (rule nth_notin_drop_Suc)
  have dr: "drop i (enemies s) = ?r # drop (Suc i) (enemies s)"
    using assms(2) by (simp add: Cons_nth_drop_Suc)
  obtain e where e: "objects s ?r = Some e"
    using rin assms(1) by (auto simp: spawner_inv_def)
  obtain rm e' where u: "Enemy_update deltaTime (clock i) (playerPosition s) e = (rm, e')"
    by fastforce
  let ?s1 = "s\<lparr>objects := (objects s)(?r \<mapsto> e')\<rparr>"
  have d: "isDead e' = isDead e"
    using Enemy_update_isDead [of deltaTime "clock i" "playerPosition s" e] u by simp
  have inv1: "spawner_inv ?s1"
    using assms(1) e d by (intro inv_objects_upd) auto
  show ?thesis
  proof (cases rm)
    case True
    have len: "i < length (enemies ?s1)" using assms(2) by simp
    obtain s' where s': "removeEnemy i ?s1 = Inr s'"
      using removeEnemy_total [OF len] by blast
    have eq: "updateEnemies_at deltaTime clock i s = Inr s'"
      using assms(2) e u True s' by (simp add: updateEnemies_at_def Let_def)
    have inv': "spawner_inv s'" using inv1 s' by (rule removeEnemy_inv)
    have le: "i \<le> length (enemies s')"
      using removeEnemy_sets(5) [OF inv1 s'] assms(2) by simp
    have "keeps_tracking ?s1 s'" using inv1 s' by (rule keeps_tracking_removeEnemy)
    then have kt: "keeps_tracking s s'" by (simp add: keeps_tracking_def)
    have en: "drop i (enemies s') = drop (Suc i) (enemies s)"
      using removeEnemy_Inr(1) [OF s'] assms(2) by (simp add: drop_splice1)
    have ob: "objects s' = (objects s)(?r \<mapsto> e')"
      using removeEnemy_Inr(2) [OF s'] by simp
    have de: "set (deadEnemies s') = set (deadEnemies s) - {?r}"
      using removeEnemy_sets(2) [OF inv1 s'] by simp
    have "tracked_from (Suc i) s \<longrightarrow> tracked_from i s'"
      unfolding tracked_from_def en ob de using rnot by auto
    then show ?thesis using eq inv' le kt by blast
  next
    case False
    show ?thesis
    proof (cases "isDead e' \<and> ?r \<notin> set (deadEnemies s)")
      case True
      let ?s2 = "?s1\<lparr>deadEnemies := deadEnemies ?s1 @ [?r]\<rparr>"
      have eq: "updateEnemies_at deltaTime clock i s = Inr ?s2"
        using assms(2) e u \<open>\<not> rm\<close> True by (simp add: updateEnemies_at_def Let_def)
      have inv': "spawner_inv ?s2"
        using inv1 rin True by (intro inv_dead_append [where e = e']) simp_all
      have le: "i \<le> length (enemies ?s2)" using assms(2) by simp
      have kt: "keeps_tracking s ?s2" by (simp add: keeps_tracking_def)
      have "tracked_from (Suc i) s \<longrightarrow> tracked_from i ?s2"
        unfolding tracked_from_def using rnot dr by auto
      then show ?thesis using eq inv' le kt by blast
    next
      case False
      have eq: "updateEnemies_at deltaTime clock i s = Inr ?s1"
        using assms(2) e u \<open>\<not> rm\<close> False by (auto simp: updateEnemies_at_def Let_def)
      have le: "i \<le> length (enemies ?s1)" using assms(2) by simp
      have kt: "keeps_tracking s ?s1" by (simp add: keeps_tracking_def)
      have "tracked_from (Suc i) s \<longrightarrow> tracked_from i ?s1"
        unfolding tracked_from_def using rnot dr False by auto
      then show ?thesis using eq inv1 le kt by blast
    qed
  qed
qed

lemma updateEnemies_from_ok:
  "spawner_inv s \<Longrightarrow> i \<le> length (enemies s) \<Longrightarrow> tracked_from i s \<Longrightarrow>
   \<exists>s'. updateEnemies_from i deltaTime clock s = Inr s' \<and> spawner_inv s'
        \<and> keeps_tracking s s' \<and> tracked_from 0 s'"
proof (induction i arbitrary: s)
  case 0
  then show ?case by (simp add: keeps_tracking_refl)
next
  case (Suc i)
  from Suc.prems have i: "i < length (enemies s)" by simp
  from updateEnemies_at_ok [OF Suc.prems(1) i, of deltaTime clock] Suc.prems(3)
  obtain s1 where s1: "updateEnemies_at deltaTime clock i s = Inr s1" "spawner_inv s1"
      "i \<le> length (enemies s1)" "keeps_tracking s s1" "tracked_from i s1" by blast
  from Suc.IH [OF s1(2,3,5)]
  obtain s' where s': "updateEnemies_from i deltaTime clock s1 = Inr s'" "spawner_inv s'"
      "keeps_tracking s1 s'" "tracked_from 0 s'" by blast
  have "keeps_tracking s s'"
    using Suc.prems(1) s1(4) s'(3) by (rule keeps_tracking_trans)
  then show ?case using s1(1) s'(1,2,4) by simp
qed

lemma updateEnemies_ok:
  assumes "spawner_inv s"
  shows "\<exists>s'. updateEnemies deltaTime clock s = Inr s' \<and> spawner_inv s'
              \<and> keeps_tracking s s' \<and> tracked_from 0 s'"
  unfolding updateEnemies_def
  by (rule updateEnemies_from_ok) (simp_all add: assms tracked_from_def)

text \<open>One pass of the loop of cleanupDeadEnemies, at an index within the dead list.\<close>

lemma cleanupDeadEnemies_at_ok:
  assumes "spawner_inv s" and "i < length (deadEnemies s)"
  shows "\<exists>s'. cleanupDeadEnemies_at now i s = Inr s' \<and> spawner_inv s'
              \<and> i \<le> length (deadEnemies s') \<and> keeps_tracking s s'"
proof -
  let ?r = "deadEnemies s ! i"
  have rin: "?r \<in> set (deadEnemies s)" using assms(2) by simp
  then obtain e where e: "objects s ?r = Some e"
    using assms(1) by (auto simp: spawner_inv_def)
  have "?r \<in> set (enemies s)" using rin assms(1) by (auto simp: spawner_inv_def)
  then obtain k where k: "indexOf (enemies s) ?r = Some k"
    using indexOf_None [of "enemies s" ?r] by (cases "indexOf (enemies s) ?r") auto
  show ?thesis
  proof (cases "now - deathTime e > ZOMBIE_BODY_DESPAWN_TIME")
    case True
    have len: "k < length (enemies s)" using indexOf_Some [OF k] by simp
    obtain s' where s': "removeEnemy k s = Inr s'"
      using removeEnemy_total [OF len] by blast
    have "cleanupDeadEnemies_at now i s = Inr s'"
      using assms(2) e k True s' by (simp add: cleanupDeadEnemies_at_def Let_def)
    moreover have "spawner_inv s'" using assms(1) s' by (rule removeEnemy_inv)
    moreover have "i \<le> length (deadEnemies s')"
      using removeEnemy_sets(6) [OF assms(1) s'] assms(2) by simp
    moreover have "keeps_tracking s s'" using assms(1) s' by (rule keeps_tracking_removeEnemy)
    ultimately show ?thesis by blast
  next
    case False
    have "cleanupDeadEnemies_at now i s = Inr s"
      using assms(2) e False by (simp add: cleanupDeadEnemies_at_def Let_def)
    then show ?thesis using assms by (simp add: keeps_tracking_refl)
  qed
qed

lemma cleanupDeadEnemies_from_ok:
  "spawner_inv s \<Longrightarrow> i \<le> length (deadEnemies s) \<Longrightarrow>
   \<exists>s'. cleanupDeadEnemies_from i now s = Inr s' \<and> spawner_inv s' \<and> keeps_tracking s s'"
proof (induction i arbitrary: s)
  case 0
  then show ?case by (simp add: keeps_tracking_refl)
next
  case (Suc i)
  from Suc.prems have i: "i < length (deadEnemies s)" by simp
  from cleanupDeadEnemies_at_ok [OF Suc.prems(1) i]
  obtain s1 where s1: "cleanupDeadEnemies_at now i s = Inr s1" "spawner_inv s1"
      "i \<le> length (deadEnemies s1)" "keeps_tracking s s1" by blast
  from Suc.IH [OF s1(2,3)]
  obtain s' where s': "cleanupDeadEnemies_from i now s1 = Inr s'" "spawner_inv s'"
      "keeps_tracking s1 s'" by blast
  have "keeps_tracking s s'"
    using Suc.prems(1) s1(4) s'(3) by (rule keeps_tracking_trans)
  then show ?case using s1(1) s'(1,2) by simp
qed

lemma cleanupDeadEnemies_ok:
  assumes "spawner_inv s"
  shows "\<exists>s'. cleanupDeadEnemies now s = Inr s' \<and> spawner_inv s' \<and> keeps_tracking s s'"
  unfolding cleanupDeadEnemies_def
  by (rule cleanupDeadEnemies_from_ok) (simp_all add: assms)

text \<open>From a state that satisfies the invariant, update returns normally.\<close>

lemma update_ok:
  assumes "spawner_inv s"
  shows "\<exists>s'. update deltaTime clock now rnd1 rnd2 s = Inr s' \<and> spawner_inv s'
              \<and> keeps_tracking s s'"
proof (cases "isActive s")
  case False
  then show ?thesis using assms by (simp add: update_def keeps_tracking_refl)
next
  case True
  let ?s1 = "s\<lparr>spawnTimer := spawnTimer s + deltaTime * 1000\<rparr>"
  let ?s2 = "if ZOMBIE_SPAWN_INTERVAL \<le> spawnTimer ?s1
             then spawnEnemy rnd1 rnd2 (?s1\<lparr>spawnTimer := 0\<rparr>) else ?s1"
  have inv2: "spawner_inv ?s2"
    using assms by (simp add: inv_spawnEnemy inv_spawnTimer)
  have "keeps_tracking (?s1\<lparr>spawnTimer := 0\<rparr>) (spawnEnemy rnd1 rnd2 (?s1\<lparr>spawnTimer := 0\<rparr>))"
    using assms by (intro keeps_tracking_spawnEnemy) (simp add: spawner_inv_def)
  then have "keeps_tracking s (spawnEnemy rnd1 rnd2 (?s1\<lparr>spawnTimer := 0\<rparr>))"
    by (simp add: keeps_tracking_def)
  moreover have "keeps_tracking s ?s1"
    by (simp add: keeps_tracking_def)
  ultimately have k2: "keeps_tracking s ?s2"
    by simp
  from updateEnemies_ok [OF inv2, of deltaTime clock]
  obtain s3 where s3: "updateEnemies deltaTime clock ?s2 = Inr s3" "spawner_inv s3"
      "keeps_tracking ?s2 s3" by blast
  from cleanupDeadEnemies_ok [OF s3(2), of now]
  obtain s4 where s4: "cleanupDeadEnemies now s3 = Inr s4" "spawner_inv s4"
      "keeps_tracking s3 s4" by blast
  have eq: "update deltaTime clock now rnd1 rnd2 s = Inr s4"
    using True s3(1) s4(1) by (simp add: update_def Let_def)
  have "keeps_tracking ?s2 s4" using inv2 s3(3) s4(3) by (rule keeps_tracking_trans)
  then have "keeps_tracking s s4" using keeps_tracking_trans [OF assms k2] by blast
  then show ?thesis using eq s4(2) by blast
qed

lemma step_inv:
  assumes "step s s'" and "spawner_inv s"
  shows "spawner_inv s' \<and> keeps_tracking s s'"
  using assms
proof (induction rule: step.induct)
  case (step_start s)
  then show ?case by (simp add: spawner_inv_def keeps_tracking_def start_def)
next
  case (step_stop s)
  then show ?case by (simp add: spawner_inv_def keeps_tracking_def stop_def)
next
  case (step_setPlayerPosition s p)
  then show ?case by (simp add: spawner_inv_def keeps_tracking_def setPlayerPosition_def)
next
  case (step_update deltaTime clock now rnd1 rnd2 s s')
  then show ?case using update_ok [of s deltaTime clock now rnd1 rnd2] by auto
next
  case (step_spawnEnemy s rnd1 rnd2)
  then show ?case by (simp add: inv_spawnEnemy keeps_tracking_spawnEnemy)
next
  case (step_updateEnemies deltaTime clock s s')
  then show ?case using updateEnemies_ok [of s deltaTime clock] by auto
next
  case (step_removeEnemy index s s')
  then show ?case using removeEnemy_inv keeps_tracking_removeEnemy by blast
next
  case (step_cleanupDeadEnemies now s s')
  then show ?case using cleanupDeadEnemies_ok [of s now] by auto
next
  case (step_clear s)
  then show ?case by (simp add: spawner_inv_def keeps_tracking_def clear_def)
next
  case (step_takeDamage s r e amount isHeadshot now)
  have "spawner_inv (s\<lparr>objects := (objects s)(r \<mapsto> snd (takeDamage amount isHeadshot now e))\<rparr>)"
    using step_takeDamage by (intro inv_objects_upd [where e = e]) (simp_all add: takeDamage_isDead)
  then show ?case by (simp add: keeps_tracking_def)
next
  case (step_attack s r e now)
  have "spawner_inv (s\<lparr>objects := (objects s)(r \<mapsto> snd (attack now e))\<rparr>)"
    using step_attack by (intro inv_objects_upd [where e = e]) (simp_all add: attack_isDead)
  then show ?case by (simp add: keeps_tracking_def)
qed

lemma steps_inv:
  assumes "rtranclp step s s'" and "spawner_inv s"
  shows "spawner_inv s' \<and> keeps_tracking s s'"
  using assms
proof (induction rule: rtranclp_induct)
  case base
  then show ?case by (simp add: keeps_tracking_refl)
next
  case (step y z)
  then have y: "spawner_inv y" "keeps_tracking s y" by simp_all
  from step_inv [OF step.hyps(2) y(1)] have z: "spawner_inv z" "keeps_tracking y z" by simp_all
  show ?case using z(1) keeps_tracking_trans [OF step.prems y(2) z(2)] by simp
qed

lemma reachable_inv: "reachable s \<Longrightarrow> spawner_inv s"
proof (induction rule: reachable.induct)
  case reachable_new
  show ?case by (simp add: spawner_inv_def SpawnerSystem_new_def)
next
  case (reachable_step s s')
  then show ?case using step_inv by blast
qed

text \<open>
  C9. In every state reachable by SpawnerSystem operations (update, spawnEnemy, removeEnemy,
  cleanupDeadEnemies, clear, with enemies being hit and attacking in between), deadEnemies
  contains no duplicate entries and is a subset of enemies. An entry that has left
  deadEnemies has left enemies in the same step and returns to neither array afterwards, so
  each entity is appended to deadEnemies at most once. updateEnemies returns normally, and
  after it every dead entity still in enemies is in deadEnemies: an entity is appended at the
  tick in which its death is first observed.
\<close>

theorem deadEnemies_tracking:
  assumes "reachable s"
  shows "distinct (deadEnemies s) \<and> set (deadEnemies s) \<subseteq> set (enemies s)
       \<and> (\<forall>s1 s2 r. rtranclp step s s1 \<and> rtranclp step s1 s2
              \<and> r \<in> set (deadEnemies s) \<and> r \<notin> set (deadEnemies s1)
            \<longrightarrow> r \<notin> set (enemies s1) \<and> r \<notin> set (enemies s2) \<and> r \<notin> set (deadEnemies s2))
       \<and> (\<forall>deltaTime clock. \<exists>s'. updateEnemies deltaTime clock s = Inr s'
              \<and> (\<forall>r \<in> set (enemies s'). \<forall>e. objects s' r = Some e \<and> isDead e
                    \<longrightarrow> r \<in> set (deadEnemies s')))"
proof -
  have inv: "spawner_inv s" using assms by (rule reachable_inv)
  have a: "distinct (deadEnemies s) \<and> set (deadEnemies s) \<subseteq> set (enemies s)"
    using inv by (simp add: spawner_inv_def)
  have b: "r \<notin> set (enemies s1) \<and> r \<notin> set (enemies s2) \<and> r \<notin> set (deadEnemies s2)"
    if h: "rtranclp step s s1" "rtranclp step s1 s2"
          "r \<in> set (deadEnemies s)" "r \<notin> set (deadEnemies s1)" for s1 s2 r
  proof -
    from steps_inv [OF h(1) inv] have s1: "spawner_inv s1" "keeps_tracking s s1" by simp_all
    from steps_inv [OF h(2) s1(1)] have s2: "spawner_inv s2" "keeps_tracking s1 s2" by simp_all
    have lt: "r < enemyIdCounter s" using inv h(3) by (auto simp: spawner_inv_def)
    have n1: "r \<notin> set (enemies s1)" using s1(2) h(3,4) by (simp add: keeps_tracking_def)
    have "r < enemyIdCounter s1" using lt s1(2) by (simp add: keeps_tracking_def)
    then have n2: "r \<notin> set (enemies s2)" using n1 s2(2) by (simp add: keeps_tracking_def)
    then have "r \<notin> set (deadEnemies s2)" using s2(1) by (auto simp: spawner_inv_def)
    then show ?thesis using n1 n2 by simp
  qed
  have c: "\<exists>s'. updateEnemies deltaTime clock s = Inr s'
              \<and> (\<forall>r \<in> set (enemies s'). \<forall>e. objects s' r = Some e \<and> isDead e
                    \<longrightarrow> r \<in> set (deadEnemies s'))" for deltaTime clock
    using updateEnemies_ok [OF inv, of deltaTime clock] by (auto simp: tracked_from_def)
  show ?thesis using a b c by blast
qed

lemma updateEnemies_killed_one:
  "updateEnemies 0 (fixed_clock 2000) killed_one = Inr tracked_one"
  by (simp add: updateEnemies_def updateEnemies_at_def Enemy_update_def killed_one_def
      tracked_one_def spawned_one_eq killed_enemy_eq fixed_clock_def
      ZOMBIE_BODY_DESPAWN_TIME_def Let_def)

lemma reachable_tracked_one: "reachable tracked_one"
proof -
  have "reachable (start SpawnerSystem_new)"
    using reachable_new step_start by (rule reachable_step)
  then have r1: "reachable spawned_one"
    unfolding spawned_one_def using step_spawnEnemy by (rule reachable_step)
  have o: "objects spawned_one 0 = Some first_enemy" by (simp add: spawned_one_eq)
  have "reachable
          (spawned_one\<lparr>objects := (objects spawned_one)
                           (0 \<mapsto> snd (takeDamage 100 False 1000 first_enemy))\<rparr>)"
    using r1 step_takeDamage [OF o] by (rule reachable_step)
  then have r2: "reachable killed_one" by (simp add: killed_one_def killed_enemy_def)
  show ?thesis
    using r2 step_updateEnemies [OF updateEnemies_killed_one] by (rule reachable_step)
qed

theorem deadEnemies_tracking_witness:
  "reachable tracked_one
   \<and> enemies tracked_one = [0] \<and> deadEnemies tracked_one = [0]
   \<and> distinct (deadEnemies tracked_one)
   \<and> set (deadEnemies tracked_one) \<subseteq> set (enemies tracked_one)"
proof -
  have e: "enemies tracked_one = [0]" "deadEnemies tracked_one = [0]"
    by (simp_all add: tracked_one_def killed_one_def spawned_one_eq)
  from deadEnemies_tracking [OF reachable_tracked_one] reachable_tracked_one e
  show ?thesis by simp
qed

end
